theory Spec2Isabelle
  imports Complex_Main
begin

section \<open>Error classes (src/errors.js)\<close>

text \<open>
  A JavaScript error value, as far as the walker and its helpers look at it: a raw system
  error delivered by Node's fs module (its \<open>code\<close>, its \<open>message\<close> and the \<open>path\<close> of the
  failed call, where Node sets one), an instance of \<open>FStreamWalkError\<close> or of one of its
  subclasses (class, message, code, path), a \<open>TypeError\<close> (thrown by the pattern matcher)
  or a plain \<open>Error\<close> (thrown by \<open>sanitizeOptions\<close>).
\<close>

datatype errclass =
    FStreamWalkError | PermissionError | PathNotFoundError | InvalidPathError
  | SymlinkLoopError | AbortError | MaxDepthError

datatype jserr =
    SystemError "string option" string "string option"
  | WalkError errclass string "string option" "string option"
  | TypeError string
  | Error string

fun err_code :: "jserr \<Rightarrow> string option" where
  "err_code (SystemError c m p) = c"
| "err_code (WalkError k m c p) = c"
| "err_code (TypeError m) = None"
| "err_code (Error m) = None"

fun err_message :: "jserr \<Rightarrow> string" where
  "err_message (SystemError c m p) = m"
| "err_message (WalkError k m c p) = m"
| "err_message (TypeError m) = m"
| "err_message (Error m) = m"

fun err_path :: "jserr \<Rightarrow> string option" where
  "err_path (SystemError c m p) = p"
| "err_path (WalkError k m c p) = p"
| "err_path (TypeError m) = None"
| "err_path (Error m) = None"

text \<open>\<open>err instanceof FStreamWalkError\<close>: the base class and every subclass.\<close>

fun instanceof_FStreamWalkError :: "jserr \<Rightarrow> bool" where
  "instanceof_FStreamWalkError (WalkError k m c p) = True"
| "instanceof_FStreamWalkError e = False"


text \<open>The constructors of the subclasses: each fixes its own code.\<close>

definition new_PermissionError :: "string \<Rightarrow> string \<Rightarrow> jserr" where
  "new_PermissionError message path = WalkError PermissionError message (Some ''EACCES'') (Some path)"

definition new_PathNotFoundError :: "string \<Rightarrow> string \<Rightarrow> jserr" where
  "new_PathNotFoundError message path = WalkError PathNotFoundError message (Some ''ENOENT'') (Some path)"

definition new_InvalidPathError :: "string \<Rightarrow> string \<Rightarrow> jserr" where
  "new_InvalidPathError message path = WalkError InvalidPathError message (Some ''EINVAL'') (Some path)"

definition new_SymlinkLoopError :: "string \<Rightarrow> string \<Rightarrow> jserr" where
  "new_SymlinkLoopError message path = WalkError SymlinkLoopError message (Some ''ELOOP'') (Some path)"

definition new_AbortError :: "string \<Rightarrow> jserr" where
  "new_AbortError message = WalkError AbortError message (Some ''ABORT_ERR'') None"

text \<open>
  \<open>wrapError(err, path)\<close>: an error that is already one of the package's own is returned
  as it is; otherwise the switch on \<open>err.code\<close> picks the class, and the default case
  keeps the code and falls back to \<open>'Unknown error'\<close> for an empty message.
\<close>

definition wrapError :: "jserr \<Rightarrow> string \<Rightarrow> jserr" where
  "wrapError err path =
     (if instanceof_FStreamWalkError err then err
      else if err_code err = Some ''EACCES'' \<or> err_code err = Some ''EPERM''
        then new_PermissionError (''Permission denied: '' @ path) path
      else if err_code err = Some ''ENOENT''
        then new_PathNotFoundError (''Path not found: '' @ path) path
      else if err_code err = Some ''ELOOP''
        then new_SymlinkLoopError (''Too many symbolic links: '' @ path) path
      else if err_code err = Some ''ENOTDIR''
        then new_InvalidPathError (''Not a directory: '' @ path) path
      else WalkError FStreamWalkError
             (if err_message err = [] then ''Unknown error'' else err_message err)
             (err_code err) (Some path))"



section \<open>Option validation (src/options.js)\<close>

text \<open>
  JavaScript numbers as far as the option checks and the depth test need them, and
  JavaScript values as \<open>sanitizeOptions\<close> inspects them: by \<open>typeof\<close>, by identity with
  \<open>null\<close>, \<open>'asc'\<close>, \<open>'desc'\<close> and \<open>Infinity\<close>, and by \<open>instanceof AbortSignal\<close>.
\<close>

datatype jsnum = NaN | PosInfinity | NegInfinity | Finite real

datatype jsval =
    Undefined | Null | Boolean bool | Number jsnum | String string
  | Function | RegExpObject | AbortSignalObject | OtherObject

text \<open>The user's option object: a key that is left out is \<open>None\<close>.\<close>

record WalkerOptionsInput =
  in_maxDepth :: "jsval option"
  in_include :: "jsval option"
  in_exclude :: "jsval option"
  in_yieldDirectories :: "jsval option"
  in_followSymlinks :: "jsval option"
  in_suppressErrors :: "jsval option"
  in_signal :: "jsval option"
  in_sort :: "jsval option"
  in_onProgress :: "jsval option"
  in_withStats :: "jsval option"

text \<open>The merged object \<open>{ ...DEFAULT_OPTIONS, ...opts }\<close>: every key holds a value.\<close>

record MergedOptions =
  m_maxDepth :: jsval
  m_include :: jsval
  m_exclude :: jsval
  m_yieldDirectories :: jsval
  m_followSymlinks :: jsval
  m_suppressErrors :: jsval
  m_signal :: jsval
  m_sort :: jsval
  m_onProgress :: jsval
  m_withStats :: jsval

definition DEFAULT_OPTIONS :: MergedOptions where
  "DEFAULT_OPTIONS = \<lparr>
     m_maxDepth = Number PosInfinity,
     m_include = Null,
     m_exclude = Null,
     m_yieldDirectories = Boolean False,
     m_followSymlinks = Boolean False,
     m_suppressErrors = Boolean True,
     m_signal = Null,
     m_sort = Null,
     m_onProgress = Null,
     m_withStats = Boolean False \<rparr>"

text \<open>Object spread: a key of \<open>opts\<close> overrides the default, also when its value is \<open>undefined\<close>.\<close>

definition spread :: "jsval \<Rightarrow> jsval option \<Rightarrow> jsval" where
  "spread dflt v = (case v of None \<Rightarrow> dflt | Some x \<Rightarrow> x)"

definition merge_options :: "WalkerOptionsInput \<Rightarrow> MergedOptions" where
  "merge_options opts = \<lparr>
     m_maxDepth = spread (m_maxDepth DEFAULT_OPTIONS) (in_maxDepth opts),
     m_include = spread (m_include DEFAULT_OPTIONS) (in_include opts),
     m_exclude = spread (m_exclude DEFAULT_OPTIONS) (in_exclude opts),
     m_yieldDirectories = spread (m_yieldDirectories DEFAULT_OPTIONS) (in_yieldDirectories opts),
     m_followSymlinks = spread (m_followSymlinks DEFAULT_OPTIONS) (in_followSymlinks opts),
     m_suppressErrors = spread (m_suppressErrors DEFAULT_OPTIONS) (in_suppressErrors opts),
     m_signal = spread (m_signal DEFAULT_OPTIONS) (in_signal opts),
     m_sort = spread (m_sort DEFAULT_OPTIONS) (in_sort opts),
     m_onProgress = spread (m_onProgress DEFAULT_OPTIONS) (in_onProgress opts),
     m_withStats = spread (m_withStats DEFAULT_OPTIONS) (in_withStats opts) \<rparr>"

fun typeof_number :: "jsval \<Rightarrow> bool" where
  "typeof_number (Number n) = True"
| "typeof_number v = False"

fun typeof_boolean :: "jsval \<Rightarrow> bool" where
  "typeof_boolean (Boolean b) = True"
| "typeof_boolean v = False"

fun typeof_function :: "jsval \<Rightarrow> bool" where
  "typeof_function Function = True"
| "typeof_function v = False"

text \<open>\<open>isNaN(v)\<close> and \<open>v < 0\<close> on a value whose \<open>typeof\<close> is already known to be number.\<close>

fun isNaN :: "jsval \<Rightarrow> bool" where
  "isNaN (Number NaN) = True"
| "isNaN v = False"

fun lt_zero :: "jsval \<Rightarrow> bool" where
  "lt_zero (Number NegInfinity) = True"
| "lt_zero (Number (Finite r)) = (r < 0)"
| "lt_zero v = False"

text \<open>\<open>sanitizeOptions(opts = {})\<close>: the checks in the order of the source; the first that fails throws.\<close>

definition sanitizeOptions :: "WalkerOptionsInput \<Rightarrow> jserr + MergedOptions" where
  "sanitizeOptions opts =
     (let merged = merge_options opts in
      if m_maxDepth merged \<noteq> Number PosInfinity \<and>
         (\<not> typeof_number (m_maxDepth merged) \<or> isNaN (m_maxDepth merged) \<or> lt_zero (m_maxDepth merged))
        then Inl (Error ''maxDepth must be a non-negative number or Infinity'')
      else if m_sort merged \<noteq> Null \<and> m_sort merged \<noteq> String ''asc'' \<and>
              m_sort merged \<noteq> String ''desc'' \<and> \<not> typeof_function (m_sort merged)
        then Inl (Error ''sort must be 'asc', 'desc', a function, or null'')
      else if m_signal merged \<noteq> Null \<and> m_signal merged \<noteq> AbortSignalObject
        then Inl (Error ''signal must be an AbortSignal or null'')
      else if \<not> typeof_boolean (m_yieldDirectories merged)
        then Inl (Error ''yieldDirectories must be a boolean'')
      else if \<not> typeof_boolean (m_followSymlinks merged)
        then Inl (Error ''followSymlinks must be a boolean'')
      else if \<not> typeof_boolean (m_suppressErrors merged)
        then Inl (Error ''suppressErrors must be a boolean'')
      else if \<not> typeof_boolean (m_withStats merged)
        then Inl (Error ''withStats must be a boolean'')
      else if m_onProgress merged \<noteq> Null \<and> \<not> typeof_function (m_onProgress merged)
        then Inl (Error ''onProgress must be a function or null'')
      else Inr merged)"

section \<open>The pattern matcher (src/utils.js, src/utils.ts)\<close>

text \<open>
  A filter rule as the matcher receives it: \<open>null\<close>, \<open>undefined\<close>, a RegExp, a string, a
  predicate function, or a value of any other shape (a boolean, a number, an object).
  Neither \<open>sanitizeOptions\<close> nor the type checker at run time restricts \<open>include\<close> and
  \<open>exclude\<close>, so every shape can reach the matcher.

  A RegExp and a function are objects with a state of their own. \<open>PRegExp t i\<close> is a
  RegExp whose \<open>lastIndex\<close> is \<open>i\<close>: \<open>t i s\<close> is the answer of \<open>test(s)\<close> at that
  \<open>lastIndex\<close> together with the \<open>lastIndex\<close> the call leaves (a RegExp with neither the
  \<open>g\<close> nor the \<open>y\<close> flag leaves it as it was). \<open>PFunction f v\<close> is a function whose
  captured variables are in state \<open>v\<close>, written as a number: \<open>f v s\<close> is the truthiness of
  what the call on \<open>s\<close> returns together with the state it leaves.
\<close>

datatype pattern =
    PNull | PUndefined | PRegExp "nat \<Rightarrow> string \<Rightarrow> bool \<times> nat" nat | PString string
  | PFunction "nat \<Rightarrow> string \<Rightarrow> bool \<times> nat" nat | PBoolean bool | PNumber jsnum | PObject

text \<open>JavaScript truthiness of a rule (\<open>!pattern\<close>, \<open>options.exclude && ...\<close>).\<close>

fun truthy :: "pattern \<Rightarrow> bool" where
  "truthy PNull = False"
| "truthy PUndefined = False"
| "truthy (PRegExp t i) = True"
| "truthy (PString s) = (s \<noteq> [])"
| "truthy (PFunction f v) = True"
| "truthy (PBoolean b) = b"
| "truthy (PNumber n) = (n \<noteq> NaN \<and> n \<noteq> Finite 0)"
| "truthy PObject = True"

fun typeof_pattern :: "pattern \<Rightarrow> string" where
  "typeof_pattern (PBoolean b) = ''boolean''"
| "typeof_pattern (PNumber n) = ''number''"
| "typeof_pattern (PString s) = ''string''"
| "typeof_pattern (PFunction f v) = ''function''"
| "typeof_pattern PUndefined = ''undefined''"
| "typeof_pattern p = ''object''"

text \<open>\<open>fileName.includes(pattern)\<close>: the pattern occurs as a contiguous substring.\<close>

fun starts_with :: "string \<Rightarrow> string \<Rightarrow> bool" where
  "starts_with s [] = True"
| "starts_with [] (c # p) = False"
| "starts_with (x # s) (c # p) = (x = c \<and> starts_with s p)"

fun str_includes :: "string \<Rightarrow> string \<Rightarrow> bool" where
  "str_includes [] p = (p = [])"
| "str_includes (x # s) p = (starts_with (x # s) p \<or> str_includes s p)"

text \<open>
  \<open>match(fileName, pattern)\<close> of src/utils.js: a falsy rule matches everything, and so does
  a rule that is neither a RegExp, a string nor a function. It never throws.
\<close>

definition match :: "string \<Rightarrow> pattern \<Rightarrow> bool" where
  "match fileName p =
     (if \<not> truthy p then True
      else case p of
          PRegExp t i \<Rightarrow> fst (t i fileName)
        | PString s \<Rightarrow> str_includes fileName s
        | PFunction f v \<Rightarrow> fst (f v fileName)
        | _ \<Rightarrow> True)"

text \<open>
  \<open>match(fileName, pattern)\<close> of src/utils.ts: only \<open>null\<close> and \<open>undefined\<close> match
  everything; the empty string and every other shape throw a \<open>TypeError\<close>.
\<close>

definition match_ts :: "string \<Rightarrow> pattern \<Rightarrow> jserr + bool" where
  "match_ts fileName p =
     (case p of
        PNull \<Rightarrow> Inr True
      | PUndefined \<Rightarrow> Inr True
      | PRegExp t i \<Rightarrow> Inr (fst (t i fileName))
      | PString s \<Rightarrow>
          (if s = [] then Inl (TypeError ''Pattern cannot be an empty string (use null for match all)'')
           else Inr (str_includes fileName s))
      | PFunction f v \<Rightarrow> Inr (fst (f v fileName))
      | _ \<Rightarrow> Inl (TypeError (''Pattern must be a string, RegExp, function, null, or undefined. Got: ''
                              @ typeof_pattern p)))"

text \<open>
  The walker imports \<open>match\<close> from \<open>./utils.js\<close>; the repository holds the two versions
  above. The walker's model takes the matcher as a parameter of this type, so that what
  is proved of it holds with either: \<open>match_js\<close> is the JavaScript one at that type.
\<close>

type_synonym matcher = "string \<Rightarrow> pattern \<Rightarrow> jserr + bool"

definition match_js :: matcher where
  "match_js fileName p = Inr (match fileName p)"

text \<open>
  The rule as a call of the matcher on \<open>fileName\<close> leaves it. Both versions of \<open>match\<close>
  call \<open>pattern.test(fileName)\<close> on a RegExp and \<open>pattern(fileName)\<close> on a function, once,
  and touch no other rule. \<open>rule_after p seen\<close> is rule \<open>p\<close> after the matcher has been
  called on it with the names \<open>seen\<close>, in that order.
\<close>

fun called :: "string \<Rightarrow> pattern \<Rightarrow> pattern" where
  "called fileName (PRegExp t i) = PRegExp t (snd (t i fileName))"
| "called fileName (PFunction f v) = PFunction f (snd (f v fileName))"
| "called fileName p = p"

definition rule_after :: "pattern \<Rightarrow> string list \<Rightarrow> pattern" where
  "rule_after p seen = foldl (\<lambda>r n. called n r) p seen"

section \<open>The walker (src/core.js)\<close>

subsection \<open>What the walker sees of Node\<close>

datatype dkind = KFile | KDirectory | KSymbolicLink | KOther

record Dirent =
  name :: string
  kind :: dkind

definition isDirectory :: "Dirent \<Rightarrow> bool" where
  "isDirectory d = (kind d = KDirectory)"

definition isSymbolicLink :: "Dirent \<Rightarrow> bool" where
  "isSymbolicLink d = (kind d = KSymbolicLink)"

record Stats =
  stats_isDirectory :: bool
  stats_size :: nat

text \<open>
  The stream \<open>fs.opendir\<close> returns: the dirents its iteration delivers, in order, and the
  error the read after the last of them raises, if it raises one.
\<close>

record Dir =
  entries :: "Dirent list"
  fault :: "jserr option"

text \<open>
  The platform under one traversal: \<open>path.join\<close>, \<open>fs.realpath\<close>, \<open>fs.opendir\<close>,
  \<open>fs.stat\<close> and \<open>String.prototype.localeCompare\<close>. A call that rejects returns the
  error on the left. The file system does not change during a traversal.
\<close>

record platform =
  joinPath :: "string \<Rightarrow> string \<Rightarrow> string"
  realpath :: "string \<Rightarrow> jserr + string"
  opendir :: "string \<Rightarrow> jserr + Dir"
  stat :: "string \<Rightarrow> jserr + Stats"
  localeCompare :: "string \<Rightarrow> string \<Rightarrow> int"

subsection \<open>Options, entries and the state of a traversal\<close>

record WalkerEntry =
  path :: string
  dirent :: Dirent
  depth :: nat
  stats :: "Stats option"

datatype SortType = SortNull | SortAsc | SortDesc | SortFunction "Dirent \<Rightarrow> Dirent \<Rightarrow> int"

text \<open>
  An \<open>AbortSignal\<close> is a write-once flag that its owner sets and the walker only reads.
  \<open>AbortedAfter n k\<close> fixes the moment of the request: \<open>n\<close> entries have been yielded,
  and the walker has read the flag \<open>k\<close> times since the last of them. \<open>AbortedAfter 0 0\<close>
  is a signal that is already aborted when the traversal starts.
\<close>

datatype AbortSignal = NeverAborted | AbortedAfter nat nat

text \<open>
  \<open>WalkerOptions\<close> as src/options declares it. \<open>include\<close>, \<open>exclude\<close> and \<open>sort\<close> carry
  the suffix of their type here. \<open>onProgress\<close> is \<open>null\<close> or a callback, which returns
  normally (\<open>None\<close>) or throws.
\<close>

record WalkerOptions =
  maxDepth :: jsnum
  include_pattern :: pattern
  exclude_pattern :: pattern
  yieldDirectories :: bool
  followSymlinks :: bool
  suppressErrors :: bool
  signal :: "AbortSignal option"
  sort_type :: SortType
  onProgress :: "(WalkerEntry \<Rightarrow> jserr option) option"
  withStats :: bool

text \<open>
  The state one traversal threads through its frames: the \<open>visited\<close> set that all frames
  share, the entries yielded so far, the number of reads of \<open>signal.aborted\<close> since the
  last yield, and the names on which the matcher has been called with the \<open>include\<close> rule
  and with the \<open>exclude\<close> rule so far, which fix the state those two objects are in.
\<close>

record wstate =
  visited :: "string set"
  yielded :: "WalkerEntry list"
  polls :: nat
  include_seen :: "string list"
  exclude_seen :: "string list"

definition initial :: wstate where
  "initial = \<lparr> visited = {}, yielded = [], polls = 0, include_seen = [], exclude_seen = [] \<rparr>"

text \<open>How a frame ends: it returns, it throws, or the model's fuel ran out inside it.\<close>

datatype completion = Returned | Threw jserr | OutOfFuel

text \<open>\<open>options.signal?.aborted\<close> in state \<open>st\<close>, and the state after the read.\<close>

definition aborted :: "WalkerOptions \<Rightarrow> wstate \<Rightarrow> bool" where
  "aborted options st =
     (case signal options of
        None \<Rightarrow> False
      | Some NeverAborted \<Rightarrow> False
      | Some (AbortedAfter n k) \<Rightarrow>
          n < length (yielded st) \<or> (n = length (yielded st) \<and> k \<le> polls st))"

definition poll :: "wstate \<Rightarrow> wstate" where
  "poll st = st \<lparr> polls := Suc (polls st) \<rparr>"

text \<open>\<open>currentDepth > options.maxDepth\<close> on JavaScript numbers.\<close>

fun depth_exceeds :: "nat \<Rightarrow> jsnum \<Rightarrow> bool" where
  "depth_exceeds d NaN = False"
| "depth_exceeds d PosInfinity = False"
| "depth_exceeds d NegInfinity = True"
| "depth_exceeds d (Finite r) = (real d > r)"

subsection \<open>The frame\<close>

text \<open>
  \<open>applyFilters(name, options)\<close>: the exclude rule first, then the include rule, each
  guarded by its own truthiness. A matcher that throws makes \<open>applyFilters\<close> throw.
\<close>

definition applyFilters :: "matcher \<Rightarrow> string \<Rightarrow> WalkerOptions \<Rightarrow> jserr + bool" where
  "applyFilters mt nm options =
     (case (if truthy (exclude_pattern options) then mt nm (exclude_pattern options) else Inr False) of
        Inl e \<Rightarrow> Inl e
      | Inr True \<Rightarrow> Inr False
      | Inr False \<Rightarrow>
          (if truthy (include_pattern options) then mt nm (include_pattern options) else Inr True))"

text \<open>
  The options as they are in state \<open>st\<close>: the two rules after the calls made on them so
  far. And the state after \<open>applyFilters(name, options)\<close>: the \<open>exclude\<close> rule has been
  called if it is truthy, the \<open>include\<close> rule if it is truthy and the \<open>exclude\<close> rule did
  not match.
\<close>

definition options_now :: "WalkerOptions \<Rightarrow> wstate \<Rightarrow> WalkerOptions" where
  "options_now options st = options
     \<lparr> include_pattern := rule_after (include_pattern options) (include_seen st),
       exclude_pattern := rule_after (exclude_pattern options) (exclude_seen st) \<rparr>"

definition note_calls :: "matcher \<Rightarrow> string \<Rightarrow> WalkerOptions \<Rightarrow> wstate \<Rightarrow> wstate" where
  "note_calls mt nm now st =
     (let excluded = truthy (exclude_pattern now);
          included = truthy (include_pattern now)
                     \<and> (\<not> excluded \<or> mt nm (exclude_pattern now) = Inr False)
      in st \<lparr> include_seen := (if included then include_seen st @ [nm] else include_seen st),
               exclude_seen := (if excluded then exclude_seen st @ [nm] else exclude_seen st) \<rparr>)"

text \<open>
  Step 3 of \<open>walk\<close>, the symlink cycle protection: \<open>None\<close> lets the frame go on,
  \<open>Some c\<close> ends it with \<open>c\<close>. The set is updated before the suppression decision.
\<close>

definition cycle_guard ::
  "platform \<Rightarrow> WalkerOptions \<Rightarrow> string \<Rightarrow> wstate \<Rightarrow> completion option \<times> wstate" where
  "cycle_guard pf options dirPath st =
     (if followSymlinks options then
        (case realpath pf dirPath of
           Inr realPath \<Rightarrow>
             (if realPath \<in> visited st then (Some Returned, st)
              else (None, st \<lparr> visited := insert realPath (visited st) \<rparr>))
         | Inl err \<Rightarrow>
             (if dirPath \<in> visited st then (Some Returned, st)
              else (if \<not> suppressErrors options then Some (Threw err) else None,
                    st \<lparr> visited := insert dirPath (visited st) \<rparr>)))
      else (None, st))"

text \<open>
  Building and yielding one entry: the optional \<open>fs.stat\<close>, the yield (which resets the
  count of reads of the flag), and the progress callback.
\<close>

definition emit ::
  "platform \<Rightarrow> WalkerOptions \<Rightarrow> string \<Rightarrow> Dirent \<Rightarrow> nat \<Rightarrow> wstate \<Rightarrow> completion \<times> wstate" where
  "emit pf options entryPath d currentDepth st =
     (case (if withStats options then
              (case stat pf entryPath of
                 Inr s \<Rightarrow> Inr (Some s)
               | Inl e \<Rightarrow> if \<not> suppressErrors options then Inl e else Inr None)
            else Inr None) of
        Inl e \<Rightarrow> (Threw e, st)
      | Inr s \<Rightarrow>
          (let entry = \<lparr> path = entryPath, dirent = d, depth = currentDepth, stats = s \<rparr>;
               st' = st \<lparr> yielded := yielded st @ [entry], polls := 0 \<rparr>
           in case onProgress options of
                None \<Rightarrow> (Returned, st')
              | Some callback \<Rightarrow>
                  (case callback entry of None \<Rightarrow> (Returned, st') | Some e \<Rightarrow> (Threw e, st'))))"

text \<open>
  Whether the walker treats a dirent as a directory: its own kind, or for a symbolic link
  under \<open>followSymlinks\<close> what \<open>fs.stat\<close> says of its target (a broken link is a file).
\<close>

definition treat_as_directory :: "platform \<Rightarrow> WalkerOptions \<Rightarrow> string \<Rightarrow> Dirent \<Rightarrow> bool" where
  "treat_as_directory pf options entryPath d =
     (if isSymbolicLink d \<and> followSymlinks options then
        (case stat pf entryPath of Inr s \<Rightarrow> stats_isDirectory s | Inl e \<Rightarrow> False)
      else isDirectory d)"

text \<open>
  The body of the entry loop for one dirent, after the read of the flag. \<open>recurse\<close> is the
  recursive call \<open>walk(entryPath, options, currentDepth + 1, visited)\<close>. The filters are
  asked about every dirent, directory or not.
\<close>

definition visit ::
  "(string \<Rightarrow> nat \<Rightarrow> wstate \<Rightarrow> completion \<times> wstate) \<Rightarrow> platform \<Rightarrow> matcher \<Rightarrow> WalkerOptions \<Rightarrow>
   string \<Rightarrow> nat \<Rightarrow> Dirent \<Rightarrow> wstate \<Rightarrow> completion \<times> wstate" where
  "visit recurse pf mt options dirPath currentDepth d st0 =
     (let entryPath = joinPath pf dirPath (name d);
          now = options_now options st0;
          st = note_calls mt (name d) now st0 in
      case applyFilters mt (name d) now of
        Inl e \<Rightarrow> (Threw e, st)
      | Inr isIncluded \<Rightarrow>
          (if treat_as_directory pf options entryPath d then
             (case (if yieldDirectories options \<and> isIncluded
                    then emit pf options entryPath d currentDepth st else (Returned, st)) of
                (Returned, st') \<Rightarrow> recurse entryPath (currentDepth + 1) st'
              | (c, st') \<Rightarrow> (c, st'))
           else if isIncluded then emit pf options entryPath d currentDepth st
           else (Returned, st)))"

text \<open>
  The entry loop: \<open>ds\<close> are the dirents still to come and \<open>flt\<close> the error of the read
  after the last one. Each iteration reads the flag first and breaks when it is set.
\<close>

fun loop ::
  "(string \<Rightarrow> nat \<Rightarrow> wstate \<Rightarrow> completion \<times> wstate) \<Rightarrow> platform \<Rightarrow> matcher \<Rightarrow> WalkerOptions \<Rightarrow>
   string \<Rightarrow> nat \<Rightarrow> Dirent list \<Rightarrow> jserr option \<Rightarrow> wstate \<Rightarrow> completion \<times> wstate" where
  "loop recurse pf mt options dirPath currentDepth [] flt st =
     (case flt of None \<Rightarrow> (Returned, st) | Some e \<Rightarrow> (Threw e, st))"
| "loop recurse pf mt options dirPath currentDepth (d # ds) flt st =
     (if aborted options st then (Returned, poll st)
      else case visit recurse pf mt options dirPath currentDepth d (poll st) of
          (Returned, st') \<Rightarrow> loop recurse pf mt options dirPath currentDepth ds flt st'
        | (c, st') \<Rightarrow> (c, st'))"

text \<open>The collecting loop of the sorted case: it reads the flag after every dirent.\<close>

fun collect ::
  "WalkerOptions \<Rightarrow> Dirent list \<Rightarrow> jserr option \<Rightarrow> Dirent list \<Rightarrow> wstate \<Rightarrow> (jserr + Dirent list) \<times> wstate" where
  "collect options [] flt acc st =
     (case flt of None \<Rightarrow> (Inr acc, st) | Some e \<Rightarrow> (Inl e, st))"
| "collect options (d # ds) flt acc st =
     (if aborted options st then (Inr acc, poll st)
      else collect options ds flt (acc @ [d]) (poll st))"

text \<open>
  \<open>Array.prototype.sort(compare)\<close>: a stable sort; \<open>a\<close> stays before \<open>b\<close> unless
  \<open>compare(a, b) > 0\<close>.
\<close>

fun insert_sorted :: "('a \<Rightarrow> 'a \<Rightarrow> int) \<Rightarrow> 'a \<Rightarrow> 'a list \<Rightarrow> 'a list" where
  "insert_sorted compare x [] = [x]"
| "insert_sorted compare x (y # ys) =
     (if compare x y \<le> 0 then x # y # ys else y # insert_sorted compare x ys)"

definition array_sort :: "('a \<Rightarrow> 'a \<Rightarrow> int) \<Rightarrow> 'a list \<Rightarrow> 'a list" where
  "array_sort compare xs = foldr (insert_sorted compare) xs []"

definition sortEntries :: "platform \<Rightarrow> Dirent list \<Rightarrow> SortType \<Rightarrow> Dirent list" where
  "sortEntries pf es sortType =
     (case sortType of
        SortFunction f \<Rightarrow> array_sort f es
      | SortAsc \<Rightarrow> array_sort (\<lambda>a b. localeCompare pf (name a) (name b)) es
      | SortDesc \<Rightarrow> array_sort (\<lambda>a b. localeCompare pf (name b) (name a)) es
      | SortNull \<Rightarrow> es)"

text \<open>\<open>if (options.sort)\<close>: every sort type but \<open>null\<close> is truthy.\<close>

fun sort_requested :: "SortType \<Rightarrow> bool" where
  "sort_requested SortNull = False"
| "sort_requested s = True"

text \<open>The \<open>try\<close> block of \<open>walk\<close>: collect and sort when a sort is asked for, stream otherwise.\<close>

definition frame ::
  "(string \<Rightarrow> nat \<Rightarrow> wstate \<Rightarrow> completion \<times> wstate) \<Rightarrow> platform \<Rightarrow> matcher \<Rightarrow> WalkerOptions \<Rightarrow>
   string \<Rightarrow> nat \<Rightarrow> Dir \<Rightarrow> wstate \<Rightarrow> completion \<times> wstate" where
  "frame recurse pf mt options dirPath currentDepth dirHandle st =
     (if sort_requested (sort_type options) then
        (case collect options (entries dirHandle) (fault dirHandle) [] st of
           (Inl e, st1) \<Rightarrow> (Threw e, st1)
         | (Inr es, st1) \<Rightarrow>
             loop recurse pf mt options dirPath currentDepth
               (sortEntries pf es (sort_type options)) None st1)
      else loop recurse pf mt options dirPath currentDepth (entries dirHandle) (fault dirHandle) st)"

subsection \<open>walk\<close>

text \<open>
  \<open>walk(dirPath, options, currentDepth, visited)\<close>. The first argument bounds the nesting
  of recursive calls: a call that would nest deeper ends in \<open>OutOfFuel\<close>, with the state
  reached so far. The \<open>catch\<close> of the \<open>try\<close> block swallows what the frame throws when
  \<open>suppressErrors\<close> is set; it cannot catch \<open>OutOfFuel\<close>.
\<close>

primrec walk ::
  "nat \<Rightarrow> platform \<Rightarrow> matcher \<Rightarrow> WalkerOptions \<Rightarrow> string \<Rightarrow> nat \<Rightarrow> wstate \<Rightarrow> completion \<times> wstate" where
  "walk 0 pf mt options dirPath currentDepth st = (OutOfFuel, st)"
| "walk (Suc fuel) pf mt options dirPath currentDepth st =
     (if aborted options st then (Returned, poll st)
      else if depth_exceeds currentDepth (maxDepth options) then (Returned, poll st)
      else case cycle_guard pf options dirPath (poll st) of
          (Some c, st1) \<Rightarrow> (c, st1)
        | (None, st1) \<Rightarrow>
            (case opendir pf dirPath of
               Inl err \<Rightarrow> (if \<not> suppressErrors options then Threw err else Returned, st1)
             | Inr dirHandle \<Rightarrow>
                 (case frame (walk fuel pf mt options) pf mt options dirPath currentDepth dirHandle st1 of
                    (Threw err, st2) \<Rightarrow> (if \<not> suppressErrors options then Threw err else Returned, st2)
                  | (c, st2) \<Rightarrow> (c, st2))))"

section \<open>Notions used in the statements\<close>

text \<open>The entry the walker builds for dirent \<open>d\<close> of directory \<open>dirPath\<close> when no stats are asked for.\<close>

definition entry_of :: "platform \<Rightarrow> string \<Rightarrow> nat \<Rightarrow> Dirent \<Rightarrow> WalkerEntry" where
  "entry_of pf dirPath k d = \<lparr> path = joinPath pf dirPath (name d), dirent = d, depth = k, stats = None \<rparr>"

text \<open>State \<open>st'\<close> has the entries of \<open>st\<close> and after them new ones, which all satisfy \<open>P\<close>.\<close>

definition grows_by :: "(WalkerEntry \<Rightarrow> bool) \<Rightarrow> wstate \<Rightarrow> wstate \<Rightarrow> bool" where
  "grows_by P st st' = (\<exists>new. yielded st' = yielded st @ new \<and> list_all P new)"

text \<open>The names that some directory of the platform lists.\<close>

definition listed_names :: "platform \<Rightarrow> string set" where
  "listed_names pf = {n. \<exists>p dh d. opendir pf p = Inr dh \<and> d \<in> set (entries dh) \<and> name d = n}"

text \<open>
  Entry \<open>e\<close> lies beneath \<open>dirPath\<close>, a directory at depth \<open>k\<close>: its path is \<open>dirPath\<close>
  joined with the names \<open>ns\<close> of the directories in between, each of them a name that a
  directory listed, and then its own name, its depth is \<open>k\<close> plus the number of those
  directories, and its dirent was delivered by the directory it sits in.
\<close>

definition beneath :: "platform \<Rightarrow> string \<Rightarrow> nat \<Rightarrow> WalkerEntry \<Rightarrow> bool" where
  "beneath pf dirPath k e =
     (\<exists>ns dh. path e = foldl (joinPath pf) dirPath (ns @ [name (dirent e)])
            \<and> depth e = k + length ns
            \<and> set ns \<subseteq> listed_names pf
            \<and> opendir pf (foldl (joinPath pf) dirPath ns) = Inr dh
            \<and> dirent e \<in> set (entries dh))"

definition in_scope :: "platform \<Rightarrow> WalkerOptions \<Rightarrow> string \<Rightarrow> nat \<Rightarrow> WalkerEntry \<Rightarrow> bool" where
  "in_scope pf options dirPath k e =
     (beneath pf dirPath k e \<and> \<not> depth_exceeds (depth e) (maxDepth options))"

text \<open>
  From \<open>st\<close> to \<open>st'\<close> the number of yielded entries stays under the cap \<open>n + 1\<close>, or
  where it was if it was beyond the cap already.
\<close>

definition capped :: "nat \<Rightarrow> wstate \<Rightarrow> wstate \<Rightarrow> bool" where
  "capped n st st' = (length (yielded st') \<le> max (length (yielded st)) (Suc n))"


text \<open>
  The sequence of entries a traversal of \<open>rootPath\<close> yields (within the fuel).
\<close>

definition traversal :: "nat \<Rightarrow> platform \<Rightarrow> matcher \<Rightarrow> WalkerOptions \<Rightarrow> string \<Rightarrow> WalkerEntry list" where
  "traversal fuel pf mt options rootPath = yielded (snd (walk fuel pf mt options rootPath 0 initial))"

section \<open>Example inputs\<close>

text \<open>An option object with no key, and the typed image of \<open>DEFAULT_OPTIONS\<close>.\<close>

definition no_options :: WalkerOptionsInput where
  "no_options = \<lparr> in_maxDepth = None, in_include = None, in_exclude = None,
     in_yieldDirectories = None, in_followSymlinks = None, in_suppressErrors = None,
     in_signal = None, in_sort = None, in_onProgress = None, in_withStats = None \<rparr>"

definition default_options :: WalkerOptions where
  "default_options = \<lparr>
     maxDepth = PosInfinity,
     include_pattern = PNull,
     exclude_pattern = PNull,
     yieldDirectories = False,
     followSymlinks = False,
     suppressErrors = True,
     signal = None,
     sort_type = SortNull,
     onProgress = None,
     withStats = False \<rparr>"

text \<open>
  A platform from finite tables: the directories that open, the paths that resolve, and
  what \<open>stat\<close> says of a path. Every other path fails with \<open>ENOENT\<close>, an error that
  carries the path. Paths are joined with a slash, and names compare by their first
  differing character.
\<close>

definition enoent :: "string \<Rightarrow> jserr" where
  "enoent p = SystemError (Some ''ENOENT'') ''no such file or directory'' (Some p)"

fun compare_strings :: "string \<Rightarrow> string \<Rightarrow> int" where
  "compare_strings [] [] = 0"
| "compare_strings [] (y # ys) = - 1"
| "compare_strings (x # xs) [] = 1"
| "compare_strings (x # xs) (y # ys) =
     (if x = y then compare_strings xs ys else if of_char x < (of_char y :: nat) then - 1 else 1)"

definition table_platform ::
  "(string \<times> Dir) list \<Rightarrow> (string \<times> string) list \<Rightarrow> (string \<times> Stats) list \<Rightarrow> platform" where
  "table_platform dirs links files = \<lparr>
     joinPath = (\<lambda>a b. a @ ''/'' @ b),
     realpath = (\<lambda>p. case map_of links p of Some q \<Rightarrow> Inr q | None \<Rightarrow> Inl (enoent p)),
     opendir = (\<lambda>p. case map_of dirs p of Some d \<Rightarrow> Inr d | None \<Rightarrow> Inl (enoent p)),
     stat = (\<lambda>p. case map_of files p of Some s \<Rightarrow> Inr s | None \<Rightarrow> Inl (enoent p)),
     localeCompare = compare_strings \<rparr>"

definition regular_file :: "string \<Rightarrow> Dirent" where
  "regular_file n = \<lparr> name = n, kind = KFile \<rparr>"

definition directory_entry :: "string \<Rightarrow> Dirent" where
  "directory_entry n = \<lparr> name = n, kind = KDirectory \<rparr>"

definition symlink_entry :: "string \<Rightarrow> Dirent" where
  "symlink_entry n = \<lparr> name = n, kind = KSymbolicLink \<rparr>"

definition listing :: "Dirent list \<Rightarrow> Dir" where
  "listing ds = \<lparr> entries = ds, fault = None \<rparr>"

text \<open>
  The tree of the spec's scenario: \<open>root\<close> holds \<open>alpha.txt\<close>, a directory \<open>sub\<close> with
  \<open>gamma.txt\<close>, and \<open>beta.txt\<close>, delivered in that order.
\<close>

definition scenario_tree :: platform where
  "scenario_tree = table_platform
     [(''root'', listing [regular_file ''alpha.txt'', directory_entry ''sub'', regular_file ''beta.txt'']),
      (''root/sub'', listing [regular_file ''gamma.txt''])]
     [(''root'', ''root''), (''root/sub'', ''root/sub'')]
     [(''root'', \<lparr> stats_isDirectory = True, stats_size = 0 \<rparr>),
      (''root/sub'', \<lparr> stats_isDirectory = True, stats_size = 0 \<rparr>),
      (''root/alpha.txt'', \<lparr> stats_isDirectory = False, stats_size = 13 \<rparr>),
      (''root/beta.txt'', \<lparr> stats_isDirectory = False, stats_size = 12 \<rparr>),
      (''root/sub/gamma.txt'', \<lparr> stats_isDirectory = False, stats_size = 13 \<rparr>)]"

text \<open>The same tree where \<open>sub\<close> is listed by its parent but no longer opens (\<open>ENOENT\<close>).\<close>

definition vanished_tree :: platform where
  "vanished_tree = table_platform
     [(''root'', listing [regular_file ''alpha.txt'', directory_entry ''sub'', regular_file ''beta.txt''])]
     [(''root'', ''root'')]
     [(''root'', \<lparr> stats_isDirectory = True, stats_size = 0 \<rparr>),
      (''root/alpha.txt'', \<lparr> stats_isDirectory = False, stats_size = 13 \<rparr>),
      (''root/beta.txt'', \<lparr> stats_isDirectory = False, stats_size = 12 \<rparr>)]"

text \<open>
  A tree walked from the root \<open>.\<close>, on a platform whose join drops that root as
  \<open>path.join('.', 'a') = 'a'\<close> does: joining does not always make a path longer there.
\<close>

definition normalizing_join :: "string \<Rightarrow> string \<Rightarrow> string" where
  "normalizing_join a b = (if a = ''.'' \<or> a = [] then b else a @ ''/'' @ b)"

definition dot_tree :: platform where
  "dot_tree = (table_platform
     [(''.'', listing [regular_file ''a.txt'', directory_entry ''sub'']),
      (''sub'', listing [regular_file ''b.txt''])]
     []
     [(''a.txt'', \<lparr> stats_isDirectory = False, stats_size = 1 \<rparr>),
      (''sub'', \<lparr> stats_isDirectory = True, stats_size = 0 \<rparr>),
      (''sub/b.txt'', \<lparr> stats_isDirectory = False, stats_size = 2 \<rparr>)])
     \<lparr> joinPath := normalizing_join \<rparr>"

text \<open>
  A directory cycle through a symbolic link: \<open>A\<close> holds \<open>f.txt\<close> and \<open>link\<close>, which
  points back to \<open>A\<close>.
\<close>

definition cycle_tree :: platform where
  "cycle_tree = table_platform
     [(''A'', listing [regular_file ''f.txt'', symlink_entry ''link'']),
      (''A/link'', listing [regular_file ''f.txt'', symlink_entry ''link''])]
     [(''A'', ''A''), (''A/link'', ''A''), (''A/f.txt'', ''A/f.txt''), (''A/link/f.txt'', ''A/f.txt'')]
     [(''A'', \<lparr> stats_isDirectory = True, stats_size = 0 \<rparr>),
      (''A/link'', \<lparr> stats_isDirectory = True, stats_size = 0 \<rparr>),
      (''A/f.txt'', \<lparr> stats_isDirectory = False, stats_size = 5 \<rparr>)]"

section \<open>Option validation: what fails and what is filled in\<close>

lemma maxDepth_check:
  "(v \<noteq> Number PosInfinity \<and> (\<not> typeof_number v \<or> isNaN v \<or> lt_zero v))
   \<longleftrightarrow> \<not> (v = Number PosInfinity \<or> (\<exists>r. 0 \<le> r \<and> v = Number (Finite r)))"
proof (cases v)
  case (Number n)
  then show ?thesis by (cases n) (auto simp: not_less)
qed simp_all

lemma typeof_boolean_iff: "typeof_boolean v \<longleftrightarrow> (\<exists>b. v = Boolean b)"
  by (cases v) simp_all

lemma typeof_function_iff: "typeof_function v \<longleftrightarrow> v = Function"
  by (cases v) simp_all

lemma sanitizeOptions_Inr: "sanitizeOptions opts = Inr m \<Longrightarrow> m = merge_options opts"
  by (simp add: sanitizeOptions_def Let_def split: if_splits)

text \<open>
  C6 (as amended). \<open>sanitizeOptions\<close> throws exactly when, after the defaults are merged
  in, the depth limit is neither \<open>Infinity\<close> nor a non-negative number (an integer or
  not), the sort is none of \<open>null\<close>, \<open>'asc'\<close>, \<open>'desc'\<close> and a function, the signal is
  neither \<open>null\<close> nor an \<open>AbortSignal\<close>, one of the four boolean options is not a
  boolean, or \<open>onProgress\<close> is neither \<open>null\<close> nor a function. When it does not throw,
  it returns the merged object unchanged, in which every key the caller left out holds
  its documented default.
\<close>

theorem sanitizeOptions_validation:
  "((\<exists>e. sanitizeOptions opts = Inl e) \<longleftrightarrow>
      \<not> (m_maxDepth (merge_options opts) = Number PosInfinity
         \<or> (\<exists>r. 0 \<le> r \<and> m_maxDepth (merge_options opts) = Number (Finite r)))
    \<or> m_sort (merge_options opts) \<notin> {Null, String ''asc'', String ''desc'', Function}
    \<or> m_signal (merge_options opts) \<notin> {Null, AbortSignalObject}
    \<or> (\<nexists>b. m_yieldDirectories (merge_options opts) = Boolean b)
    \<or> (\<nexists>b. m_followSymlinks (merge_options opts) = Boolean b)
    \<or> (\<nexists>b. m_suppressErrors (merge_options opts) = Boolean b)
    \<or> (\<nexists>b. m_withStats (merge_options opts) = Boolean b)
    \<or> m_onProgress (merge_options opts) \<notin> {Null, Function})
   \<and> (\<forall>m. sanitizeOptions opts = Inr m \<longrightarrow> m = merge_options opts)
   \<and> merge_options opts = \<lparr>
        m_maxDepth = (case in_maxDepth opts of None \<Rightarrow> Number PosInfinity | Some v \<Rightarrow> v),
        m_include = (case in_include opts of None \<Rightarrow> Null | Some v \<Rightarrow> v),
        m_exclude = (case in_exclude opts of None \<Rightarrow> Null | Some v \<Rightarrow> v),
        m_yieldDirectories = (case in_yieldDirectories opts of None \<Rightarrow> Boolean False | Some v \<Rightarrow> v),
        m_followSymlinks = (case in_followSymlinks opts of None \<Rightarrow> Boolean False | Some v \<Rightarrow> v),
        m_suppressErrors = (case in_suppressErrors opts of None \<Rightarrow> Boolean True | Some v \<Rightarrow> v),
        m_signal = (case in_signal opts of None \<Rightarrow> Null | Some v \<Rightarrow> v),
        m_sort = (case in_sort opts of None \<Rightarrow> Null | Some v \<Rightarrow> v),
        m_onProgress = (case in_onProgress opts of None \<Rightarrow> Null | Some v \<Rightarrow> v),
        m_withStats = (case in_withStats opts of None \<Rightarrow> Boolean False | Some v \<Rightarrow> v) \<rparr>"
proof (intro conjI allI impI)
  show "(\<exists>e. sanitizeOptions opts = Inl e) \<longleftrightarrow>
      \<not> (m_maxDepth (merge_options opts) = Number PosInfinity
         \<or> (\<exists>r. 0 \<le> r \<and> m_maxDepth (merge_options opts) = Number (Finite r)))
    \<or> m_sort (merge_options opts) \<notin> {Null, String ''asc'', String ''desc'', Function}
    \<or> m_signal (merge_options opts) \<notin> {Null, AbortSignalObject}
    \<or> (\<nexists>b. m_yieldDirectories (merge_options opts) = Boolean b)
    \<or> (\<nexists>b. m_followSymlinks (merge_options opts) = Boolean b)
    \<or> (\<nexists>b. m_suppressErrors (merge_options opts) = Boolean b)
    \<or> (\<nexists>b. m_withStats (merge_options opts) = Boolean b)
    \<or> m_onProgress (merge_options opts) \<notin> {Null, Function}"
    unfolding sanitizeOptions_def Let_def maxDepth_check typeof_boolean_iff typeof_function_iff
    by auto
next
  fix m assume "sanitizeOptions opts = Inr m"
  then show "m = merge_options opts" by (rule sanitizeOptions_Inr)
next
  show "merge_options opts = \<lparr>
        m_maxDepth = (case in_maxDepth opts of None \<Rightarrow> Number PosInfinity | Some v \<Rightarrow> v),
        m_include = (case in_include opts of None \<Rightarrow> Null | Some v \<Rightarrow> v),
        m_exclude = (case in_exclude opts of None \<Rightarrow> Null | Some v \<Rightarrow> v),
        m_yieldDirectories = (case in_yieldDirectories opts of None \<Rightarrow> Boolean False | Some v \<Rightarrow> v),
        m_followSymlinks = (case in_followSymlinks opts of None \<Rightarrow> Boolean False | Some v \<Rightarrow> v),
        m_suppressErrors = (case in_suppressErrors opts of None \<Rightarrow> Boolean True | Some v \<Rightarrow> v),
        m_signal = (case in_signal opts of None \<Rightarrow> Null | Some v \<Rightarrow> v),
        m_sort = (case in_sort opts of None \<Rightarrow> Null | Some v \<Rightarrow> v),
        m_onProgress = (case in_onProgress opts of None \<Rightarrow> Null | Some v \<Rightarrow> v),
        m_withStats = (case in_withStats opts of None \<Rightarrow> Boolean False | Some v \<Rightarrow> v) \<rparr>"
    by (simp add: merge_options_def DEFAULT_OPTIONS_def spread_def)
qed

text \<open>
  The empty option object passes and comes back as the defaults; a negative depth and an
  explicitly undefined sort are refused.
\<close>

theorem sanitizeOptions_validation_witness:
  "(\<nexists>e. sanitizeOptions no_options = Inl e)
   \<and> sanitizeOptions no_options = Inr DEFAULT_OPTIONS
   \<and> (\<exists>e. sanitizeOptions (no_options \<lparr> in_maxDepth := Some (Number (Finite (- 1))) \<rparr>) = Inl e)
   \<and> (\<exists>e. sanitizeOptions (no_options \<lparr> in_sort := Some Undefined \<rparr>) = Inl e)"
  using sanitizeOptions_validation [of no_options]
    sanitizeOptions_validation [of "no_options \<lparr> in_maxDepth := Some (Number (Finite (- 1))) \<rparr>"]
    sanitizeOptions_validation [of "no_options \<lparr> in_sort := Some Undefined \<rparr>"]
  by (simp add: no_options_def DEFAULT_OPTIONS_def sanitizeOptions_def merge_options_def spread_def)

text \<open>
  C6 as stated fails: a depth limit of 1.5 is not a non-negative integer, and
  \<open>sanitizeOptions\<close> accepts it and returns it unchanged.
\<close>

theorem fractional_maxDepth_accepted:
  "sanitizeOptions (no_options \<lparr> in_maxDepth := Some (Number (Finite (3/2))) \<rparr>)
     = Inr (DEFAULT_OPTIONS \<lparr> m_maxDepth := Number (Finite (3/2)) \<rparr>)
   \<and> (3/2 :: real) \<notin> \<int>"
  by (simp add: sanitizeOptions_def merge_options_def no_options_def DEFAULT_OPTIONS_def spread_def)

section \<open>The matcher on invalid rules\<close>

text \<open>
  C2. The claim is that a rule of an invalid shape, the empty string in particular, makes
  the matcher raise instead of matching everything. \<open>match\<close> of src/utils.js returns
  \<open>true\<close> on the empty string and on a number; \<open>match_ts\<close> of src/utils.ts raises on
  both, yet \<open>applyFilters\<close> asks the matcher only about a truthy rule, so with either
  matcher an \<open>include\<close> of \<open>''\<close> lets every name through.
\<close>

theorem match_empty_string_matches_all:
  "match ''file.js'' (PString []) = True
   \<and> match ''file.js'' (PNumber (Finite 123)) = True
   \<and> (\<exists>e. match_ts ''file.js'' (PString []) = Inl e)
   \<and> (\<exists>e. match_ts ''file.js'' (PNumber (Finite 123)) = Inl e)
   \<and> applyFilters match_js ''file.js'' (default_options \<lparr> include_pattern := PString [] \<rparr>) = Inr True
   \<and> applyFilters match_ts ''file.js'' (default_options \<lparr> include_pattern := PString [] \<rparr>) = Inr True"
  by (simp add: match_def match_ts_def match_js_def applyFilters_def default_options_def)

section \<open>The state of the rules\<close>

lemma note_calls_fields [simp]:
  "visited (note_calls mt n now st) = visited st"
  "yielded (note_calls mt n now st) = yielded st"
  "polls (note_calls mt n now st) = polls st"
  by (simp_all add: note_calls_def Let_def)

lemma aborted_note_calls [simp]: "aborted options (note_calls mt n now st) = aborted options st"
  by (simp add: aborted_def split: option.splits AbortSignal.splits)

lemma truthy_called [simp]: "truthy (called n p) = truthy p"
  by (cases p) simp_all

lemma truthy_rule_after [simp]: "truthy (rule_after p seen) = truthy p"
  unfolding rule_after_def by (induction seen arbitrary: p) simp_all

lemma options_now_fields [simp]:
  "maxDepth (options_now options st) = maxDepth options"
  "yieldDirectories (options_now options st) = yieldDirectories options"
  "followSymlinks (options_now options st) = followSymlinks options"
  "suppressErrors (options_now options st) = suppressErrors options"
  "signal (options_now options st) = signal options"
  "sort_type (options_now options st) = sort_type options"
  "onProgress (options_now options st) = onProgress options"
  "withStats (options_now options st) = withStats options"
  "include_pattern (options_now options st) = rule_after (include_pattern options) (include_seen st)"
  "exclude_pattern (options_now options st) = rule_after (exclude_pattern options) (exclude_seen st)"
  by (simp_all add: options_now_def)

lemma note_calls_absent:
  "\<not> truthy (include_pattern options) \<Longrightarrow> \<not> truthy (exclude_pattern options) \<Longrightarrow>
   note_calls mt n (options_now options st) st = st"
  by (simp add: note_calls_def)

section \<open>Errors under the two suppression policies\<close>





lemmas example_defs =
  scenario_tree_def vanished_tree_def cycle_tree_def table_platform_def default_options_def
  initial_def listing_def regular_file_def directory_entry_def symlink_entry_def enoent_def

lemmas walk_defs =
  aborted_def poll_def cycle_guard_def frame_def visit_def applyFilters_def
  options_now_def note_calls_def rule_after_def
  treat_as_directory_def isDirectory_def isSymbolicLink_def emit_def match_js_def

section \<open>Where yielded entries come from\<close>

lemma grows_by_refl [simp]: "grows_by P st st"
  by (simp add: grows_by_def)

lemma grows_by_poll [simp]: "grows_by P st (poll st)"
  by (simp add: grows_by_def poll_def)

lemma grows_by_from_poll [simp]: "grows_by P (poll st) st' = grows_by P st st'"
  by (simp add: grows_by_def poll_def)

lemma grows_by_trans: "grows_by P a b \<Longrightarrow> grows_by P b c \<Longrightarrow> grows_by P a c"
  by (auto simp: grows_by_def)

lemma grows_by_mono: "grows_by P a b \<Longrightarrow> (\<And>e. P e \<Longrightarrow> Q e) \<Longrightarrow> grows_by Q a b"
  by (auto simp: grows_by_def list_all_iff)

lemma set_insert_sorted [simp]: "set (insert_sorted c x xs) = insert x (set xs)"
  by (induction xs) auto

lemma set_array_sort [simp]: "set (array_sort c xs) = set xs"
  by (induction xs) (simp_all add: array_sort_def)

lemma set_sortEntries [simp]: "set (sortEntries pf es t) = set es"
  by (cases t) (simp_all add: sortEntries_def)

lemma collect_subset:
  "collect options ds flt acc st = (Inr es, st') \<Longrightarrow> set es \<subseteq> set acc \<union> set ds"
proof (induction ds arbitrary: acc st)
  case Nil
  then show ?case by (auto split: option.splits)
next
  case (Cons d ds)
  show ?case
  proof (cases "aborted options st")
    case True
    then show ?thesis using Cons.prems by auto
  next
    case False
    then have "collect options ds flt (acc @ [d]) (poll st) = (Inr es, st')"
      using Cons.prems by simp
    then have "set es \<subseteq> set (acc @ [d]) \<union> set ds" by (rule Cons.IH)
    then show ?thesis by auto
  qed
qed

lemma collect_yielded:
  "collect options ds flt acc st = (r, st') \<Longrightarrow> yielded st' = yielded st \<and> visited st' = visited st"
  by (induction ds arbitrary: acc st) (auto simp: poll_def split: option.splits if_splits)

lemma cycle_guard_yielded:
  "cycle_guard pf options p st = (g, st') \<Longrightarrow> yielded st' = yielded st"
  by (auto simp: cycle_guard_def split: if_splits sum.splits)

lemma emit_grows:
  assumes "emit pf options p d k st = (c, st')"
    and "\<And>s. P \<lparr> path = p, dirent = d, depth = k, stats = s \<rparr>"
  shows "grows_by P st st'"
  using assms
  by (auto simp: emit_def grows_by_def Let_def split: if_splits sum.splits option.splits)

lemma beneath_child:
  "opendir pf dirPath = Inr dh \<Longrightarrow> d \<in> set (entries dh) \<Longrightarrow>
   beneath pf dirPath k \<lparr> path = joinPath pf dirPath (name d), dirent = d, depth = k, stats = s \<rparr>"
  unfolding beneath_def by (rule exI [of _ "[]"]) simp

lemma beneath_up:
  "n \<in> listed_names pf \<Longrightarrow> beneath pf (joinPath pf dirPath n) (Suc k) e \<Longrightarrow> beneath pf dirPath k e"
  unfolding beneath_def
  apply (elim exE conjE)
  subgoal for ns dh
    by (rule exI [of _ "n # ns"]) auto
  done

lemma visit_scope:
  assumes rec: "\<forall>p j s c s'. recurse p j s = (c, s') \<longrightarrow> grows_by (in_scope pf options p j) s s'"
    and dh: "opendir pf dirPath = Inr dh" "d \<in> set (entries dh)"
    and k: "\<not> depth_exceeds k (maxDepth options)"
    and v: "visit recurse pf mt options dirPath k d st = (c, st')"
  shows "grows_by (in_scope pf options dirPath k) st st'"
proof -
  let ?p = "joinPath pf dirPath (name d)"
  have em: "\<And>s c s'. emit pf options ?p d k s = (c, s') \<Longrightarrow> grows_by (in_scope pf options dirPath k) s s'"
    by (erule emit_grows) (simp add: in_scope_def beneath_child [OF dh] k)
  have ln: "name d \<in> listed_names pf" using dh unfolding listed_names_def by blast
  have up: "\<And>s s'. grows_by (in_scope pf options ?p (Suc k)) s s' \<Longrightarrow> grows_by (in_scope pf options dirPath k) s s'"
    by (erule grows_by_mono) (auto simp: in_scope_def intro: beneath_up [OF ln])
  let ?now = "options_now options st"
  let ?s = "note_calls mt (name d) ?now st"
  have gs: "\<And>s'. grows_by (in_scope pf options dirPath k) ?s s' \<Longrightarrow> grows_by (in_scope pf options dirPath k) st s'"
    by (simp add: grows_by_def)
  have g0: "grows_by (in_scope pf options dirPath k) ?s ?s" by (simp add: grows_by_def)
  show ?thesis
  proof (cases "applyFilters mt (name d) ?now")
    case (Inl e)
    then show ?thesis using v gs [OF g0] by (simp add: visit_def Let_def)
  next
    case (Inr inc)
    show ?thesis
    proof (cases "treat_as_directory pf options ?p d")
      case False
      then show ?thesis using v Inr em gs g0 by (auto simp: visit_def Let_def split: if_splits)
    next
      case True
      obtain c1 s1 where e1: "(if yieldDirectories options \<and> inc then emit pf options ?p d k ?s
                                else (Returned, ?s)) = (c1, s1)" by force
      then have g1: "grows_by (in_scope pf options dirPath k) ?s s1"
        using em g0 by (auto split: if_splits)
      show ?thesis
      proof (cases c1)
        case Returned
        then have "recurse ?p (Suc k) s1 = (c, st')"
          using v Inr True e1 by (simp add: visit_def Let_def)
        then have "grows_by (in_scope pf options ?p (Suc k)) s1 st'" using rec by blast
        then show ?thesis using g1 up grows_by_trans gs by blast
      next
        case (Threw x)
        then show ?thesis using v Inr True e1 g1 gs by (simp add: visit_def Let_def)
      next
        case OutOfFuel
        then show ?thesis using v Inr True e1 g1 gs by (simp add: visit_def Let_def)
      qed
    qed
  qed
qed

lemma loop_scope:
  assumes rec: "\<forall>p j s c s'. recurse p j s = (c, s') \<longrightarrow> grows_by (in_scope pf options p j) s s'"
    and dh: "opendir pf dirPath = Inr dh"
    and k: "\<not> depth_exceeds k (maxDepth options)"
  shows "set ds \<subseteq> set (entries dh) \<Longrightarrow> loop recurse pf mt options dirPath k ds flt st = (c, st')
         \<Longrightarrow> grows_by (in_scope pf options dirPath k) st st'"
proof (induction ds arbitrary: st)
  case Nil
  then show ?case by (auto split: option.splits)
next
  case (Cons d ds)
  show ?case
  proof (cases "aborted options st")
    case True
    then show ?thesis using Cons.prems by auto
  next
    case False
    obtain c1 s1 where v: "visit recurse pf mt options dirPath k d (poll st) = (c1, s1)" by force
    have g1: "grows_by (in_scope pf options dirPath k) st s1"
      using visit_scope [OF rec dh _ k v] Cons.prems(1) by simp
    show ?thesis
    proof (cases c1)
      case Returned
      then have "loop recurse pf mt options dirPath k ds flt s1 = (c, st')"
        using Cons.prems(2) False v by simp
      then have "grows_by (in_scope pf options dirPath k) s1 st'"
        using Cons.IH Cons.prems(1) by simp
      then show ?thesis using g1 grows_by_trans by blast
    next
      case (Threw x)
      then show ?thesis using Cons.prems(2) False v g1 by simp
    next
      case OutOfFuel
      then show ?thesis using Cons.prems(2) False v g1 by simp
    qed
  qed
qed

lemma frame_scope:
  assumes rec: "\<forall>p j s c s'. recurse p j s = (c, s') \<longrightarrow> grows_by (in_scope pf options p j) s s'"
    and dh: "opendir pf dirPath = Inr dh"
    and k: "\<not> depth_exceeds k (maxDepth options)"
    and f: "frame recurse pf mt options dirPath k dh st = (c, st')"
  shows "grows_by (in_scope pf options dirPath k) st st'"
proof (cases "sort_requested (sort_type options)")
  case False
  then show ?thesis using f loop_scope [OF rec dh k, of "entries dh"] by (simp add: frame_def)
next
  case True
  obtain r s1 where c: "collect options (entries dh) (fault dh) [] st = (r, s1)" by force
  then have y: "yielded s1 = yielded st" by (simp add: collect_yielded)
  show ?thesis
  proof (cases r)
    case (Inl e)
    then show ?thesis using True f c y by (simp add: frame_def grows_by_def)
  next
    case (Inr es)
    then have sub: "set (sortEntries pf es (sort_type options)) \<subseteq> set (entries dh)"
      using collect_subset c by fastforce
    have "loop recurse pf mt options dirPath k (sortEntries pf es (sort_type options)) None s1 = (c, st')"
      using True f c Inr by (simp add: frame_def)
    then have "grows_by (in_scope pf options dirPath k) s1 st'"
      using loop_scope [OF rec dh k sub] by blast
    then show ?thesis using y by (simp add: grows_by_def)
  qed
qed

lemma walk_scope:
  "walk fuel pf mt options p k st = (c, st') \<Longrightarrow> grows_by (in_scope pf options p k) st st'"
proof (induction fuel arbitrary: p k st c st')
  case 0
  then show ?case by auto
next
  case (Suc fuel)
  have rec: "\<forall>p j s c s'. walk fuel pf mt options p j s = (c, s') \<longrightarrow> grows_by (in_scope pf options p j) s s'"
    using Suc.IH by blast
  show ?case
  proof (cases "aborted options st \<or> depth_exceeds k (maxDepth options)")
    case True
    then show ?thesis using Suc.prems by (auto split: if_splits)
  next
    case False
    obtain g st1 where g: "cycle_guard pf options p (poll st) = (g, st1)" by force
    then have y: "yielded st1 = yielded st" by (simp add: cycle_guard_yielded poll_def)
    then have g0: "grows_by (in_scope pf options p k) st st1" by (simp add: grows_by_def)
    show ?thesis
    proof (cases g)
      case (Some x)
      then show ?thesis using Suc.prems False g g0 by auto
    next
      case None
      show ?thesis
      proof (cases "opendir pf p")
        case (Inl err)
        then show ?thesis using Suc.prems False g None g0 by (auto split: if_splits)
      next
        case (Inr dh)
        obtain c2 st2 where f: "frame (walk fuel pf mt options) pf mt options p k dh st1 = (c2, st2)"
          by force
        have "grows_by (in_scope pf options p k) st1 st2"
          using frame_scope [OF rec Inr _ f] False by simp
        then have "grows_by (in_scope pf options p k) st st2"
          using g0 grows_by_trans by blast
        moreover have "st' = st2"
          using Suc.prems False g None Inr f by (auto split: completion.splits if_splits)
        ultimately show ?thesis by simp
      qed
    qed
  qed
qed

section \<open>A depth limit of zero\<close>

lemma walk_pruned:
  "depth_exceeds k (maxDepth options) \<Longrightarrow> walk (Suc fuel) pf mt options p k st = (Returned, poll st)"
  by simp

lemma aborted_no_signal [simp]: "signal options = None \<Longrightarrow> \<not> aborted options st"
  by (simp add: aborted_def)

lemma collect_no_signal:
  "signal options = None \<Longrightarrow>
   collect options ds flt acc st =
     (case flt of None \<Rightarrow> Inr (acc @ ds) | Some e \<Rightarrow> Inl e, st \<lparr> polls := polls st + length ds \<rparr>)"
  by (induction ds arbitrary: acc st) (auto simp: poll_def split: option.splits)

lemma applyFilters_absent:
  "\<not> truthy (include_pattern options) \<Longrightarrow> \<not> truthy (exclude_pattern options) \<Longrightarrow>
   applyFilters mt n options = Inr True"
  by (simp add: applyFilters_def)

lemma loop_flat:
  assumes "signal options = None"
    "\<not> truthy (include_pattern options)" "\<not> truthy (exclude_pattern options)"
    "\<not> yieldDirectories options" "onProgress options = None" "\<not> withStats options"
    "\<not> followSymlinks options"
    "\<forall>p s. recurse p (Suc k) s = (Returned, poll s)"
  shows "\<exists>st'. loop recurse pf mt options dirPath k ds None st = (Returned, st')
       \<and> visited st' = visited st
       \<and> yielded st' = yielded st @ map (entry_of pf dirPath k) (filter (\<lambda>d. \<not> isDirectory d) ds)"
proof (induction ds arbitrary: st)
  case Nil
  then show ?case by simp
next
  case (Cons d ds)
  show ?case
  proof (cases "isDirectory d")
    case True
    then have "visit recurse pf mt options dirPath k d (poll st) = (Returned, poll (poll st))"
      using assms by (simp add: visit_def treat_as_directory_def applyFilters_absent note_calls_absent)
    then show ?thesis using assms(1) True Cons.IH [of "poll (poll st)"]
      by (simp add: poll_def)
  next
    case False
    then have "visit recurse pf mt options dirPath k d (poll st)
       = (Returned, poll st \<lparr> yielded := yielded st @ [entry_of pf dirPath k d], polls := 0 \<rparr>)"
      using assms
      by (simp add: visit_def treat_as_directory_def applyFilters_absent note_calls_absent emit_def
          entry_of_def poll_def)
    then show ?thesis using assms(1) False
        Cons.IH [of "poll st \<lparr> yielded := yielded st @ [entry_of pf dirPath k d], polls := 0 \<rparr>"]
      by (simp add: poll_def)
  qed
qed

lemma walk_maxDepth_zero_flat:
  assumes "maxDepth options = Finite 0" "signal options = None"
    "\<not> truthy (include_pattern options)" "\<not> truthy (exclude_pattern options)"
    "\<not> yieldDirectories options" "onProgress options = None" "\<not> withStats options"
    "\<not> followSymlinks options"
    "opendir pf dirPath = Inr dh" "fault dh = None"
  shows "\<exists>st'. walk (Suc (Suc fuel)) pf mt options dirPath 0 st = (Returned, st')
       \<and> visited st' = visited st
       \<and> yielded st' = yielded st @ map (entry_of pf dirPath 0)
               (filter (\<lambda>d. \<not> isDirectory d) (sortEntries pf (entries dh) (sort_type options)))"
proof -
  have rec: "\<forall>p s. walk (Suc fuel) pf mt options p (Suc 0) s = (Returned, poll s)"
    using assms(1) by simp
  let ?st1 = "if sort_requested (sort_type options)
              then poll st \<lparr> polls := polls (poll st) + length (entries dh) \<rparr> else poll st"
  have s: "\<not> sort_requested (sort_type options) \<Longrightarrow>
             sortEntries pf (entries dh) (sort_type options) = entries dh"
    by (cases "sort_type options") (simp_all add: sortEntries_def)
  have f: "frame (walk (Suc fuel) pf mt options) pf mt options dirPath 0 dh (poll st)
        = loop (walk (Suc fuel) pf mt options) pf mt options dirPath 0
            (sortEntries pf (entries dh) (sort_type options)) None ?st1"
    using assms(2,10) s by (simp add: frame_def collect_no_signal)
  obtain st' where l: "loop (walk (Suc fuel) pf mt options) pf mt options dirPath 0
            (sortEntries pf (entries dh) (sort_type options)) None ?st1 = (Returned, st')"
    and v: "visited st' = visited ?st1"
    and y: "yielded st' = yielded ?st1 @ map (entry_of pf dirPath 0)
               (filter (\<lambda>d. \<not> isDirectory d) (sortEntries pf (entries dh) (sort_type options)))"
    using loop_flat [where recurse = "walk (Suc fuel) pf mt options" and k = 0,
        OF assms(2-8) rec] by blast
  have "walk (Suc (Suc fuel)) pf mt options dirPath 0 st = (Returned, st')"
    using assms(1,2,8,9) f l by (simp add: cycle_guard_def)
  then show ?thesis using v y by (simp add: poll_def)
qed

lemma in_scope_zero:
  assumes "maxDepth options = Finite 0" "in_scope pf options dirPath 0 e"
  shows "depth e = 0 \<and> path e = joinPath pf dirPath (name (dirent e))
       \<and> (\<exists>dh. opendir pf dirPath = Inr dh \<and> dirent e \<in> set (entries dh))"
  using assms by (auto simp: in_scope_def beneath_def)

lemma walk_initial_scope:
  "list_all (in_scope pf options p k) (yielded (snd (walk fuel pf mt options p k initial)))"
proof -
  obtain c st' where w: "walk fuel pf mt options p k initial = (c, st')" by force
  from walk_scope [OF w] show ?thesis using w by (simp add: grows_by_def initial_def)
qed

lemma beneath_not_root:
  assumes "\<forall>ns. ns \<noteq> [] \<and> set ns \<subseteq> listed_names pf \<longrightarrow> foldl (joinPath pf) p ns \<noteq> p"
    and "beneath pf p k e"
  shows "path e \<noteq> p"
proof -
  from assms(2) obtain ns dh where n: "path e = foldl (joinPath pf) p (ns @ [name (dirent e)])"
    "set ns \<subseteq> listed_names pf" "opendir pf (foldl (joinPath pf) p ns) = Inr dh"
    "dirent e \<in> set (entries dh)"
    unfolding beneath_def by blast
  have "name (dirent e) \<in> listed_names pf" using n(3,4) unfolding listed_names_def by blast
  then have "set (ns @ [name (dirent e)]) \<subseteq> listed_names pf" using n(2) by simp
  then show ?thesis using assms(1) n(1) by (metis snoc_eq_iff_butlast)
qed

text \<open>
  C3. With \<open>maxDepth = 0\<close>: every call of \<open>walk\<close> at a depth of one or more returns at
  once, before it opens anything; whatever the other options are, every entry a traversal
  yields has depth 0 and is a dirent of the root itself, with the root joined with its name
  as its path; and with no cancellation, no filters, no yielding of directories, no
  symlink following, no stats and no callback, a root that opens and reads without
  fault yields exactly its dirents that are not directories, in the order read (or
  sorted), and nothing else.
\<close>

theorem maxDepth_zero_yields_root_children:
  "maxDepth options = Finite 0 \<longrightarrow>
     walk (Suc fuel) pf mt options p (Suc k) st = (Returned, poll st)
   \<and> list_all (\<lambda>e. depth e = 0 \<and> path e = joinPath pf dirPath (name (dirent e))
                  \<and> (\<exists>dh. opendir pf dirPath = Inr dh \<and> dirent e \<in> set (entries dh)))
        (yielded (snd (walk fuel pf mt options dirPath 0 initial)))
   \<and> (signal options = None \<and> \<not> truthy (include_pattern options) \<and> \<not> truthy (exclude_pattern options)
      \<and> \<not> yieldDirectories options \<and> onProgress options = None \<and> \<not> withStats options
      \<and> \<not> followSymlinks options \<and> opendir pf dirPath = Inr dh \<and> fault dh = None \<longrightarrow>
      (\<exists>st'. walk (Suc (Suc fuel)) pf mt options dirPath 0 st = (Returned, st')
         \<and> visited st' = visited st
         \<and> yielded st' = yielded st @ map (entry_of pf dirPath 0)
               (filter (\<lambda>d. \<not> isDirectory d) (sortEntries pf (entries dh) (sort_type options)))))"
proof (intro impI conjI)
  assume m: "maxDepth options = Finite 0"
  then show "walk (Suc fuel) pf mt options p (Suc k) st = (Returned, poll st)" by simp
  show "list_all (\<lambda>e. depth e = 0 \<and> path e = joinPath pf dirPath (name (dirent e))
                  \<and> (\<exists>dh. opendir pf dirPath = Inr dh \<and> dirent e \<in> set (entries dh)))
        (yielded (snd (walk fuel pf mt options dirPath 0 initial)))"
    using walk_initial_scope [of pf options dirPath 0 fuel mt] in_scope_zero [OF m, of pf dirPath]
    unfolding list_all_iff by blast
  assume "signal options = None \<and> \<not> truthy (include_pattern options) \<and> \<not> truthy (exclude_pattern options)
      \<and> \<not> yieldDirectories options \<and> onProgress options = None \<and> \<not> withStats options
      \<and> \<not> followSymlinks options \<and> opendir pf dirPath = Inr dh \<and> fault dh = None"
  then show "\<exists>st'. walk (Suc (Suc fuel)) pf mt options dirPath 0 st = (Returned, st')
         \<and> visited st' = visited st
         \<and> yielded st' = yielded st @ map (entry_of pf dirPath 0)
               (filter (\<lambda>d. \<not> isDirectory d) (sortEntries pf (entries dh) (sort_type options)))"
    using walk_maxDepth_zero_flat [OF m] by blast
qed

text \<open>The scenario tree under \<open>maxDepth = 0\<close>: the two files of the root, nothing of \<open>sub\<close>.\<close>

theorem maxDepth_zero_yields_root_children_witness:
  "maxDepth (default_options \<lparr> maxDepth := Finite 0 \<rparr>) = Finite 0
   \<and> (\<exists>st'. walk (Suc (Suc 0)) scenario_tree match_js (default_options \<lparr> maxDepth := Finite 0 \<rparr>)
               ''root'' 0 initial = (Returned, st')
         \<and> visited st' = {}
         \<and> map path (yielded st') = [''root/alpha.txt'', ''root/beta.txt''])"
proof -
  let ?o = "default_options \<lparr> maxDepth := Finite 0 \<rparr>"
  let ?dh = "listing [regular_file ''alpha.txt'', directory_entry ''sub'', regular_file ''beta.txt'']"
  have m: "maxDepth ?o = Finite 0" by simp
  have h: "signal ?o = None \<and> \<not> truthy (include_pattern ?o) \<and> \<not> truthy (exclude_pattern ?o)
      \<and> \<not> yieldDirectories ?o \<and> onProgress ?o = None \<and> \<not> withStats ?o
      \<and> \<not> followSymlinks ?o \<and> opendir scenario_tree ''root'' = Inr ?dh \<and> fault ?dh = None"
    by (simp add: default_options_def scenario_tree_def table_platform_def listing_def)
  have e: "map path (yielded initial @ map (entry_of scenario_tree ''root'' 0)
               (filter (\<lambda>d. \<not> isDirectory d) (sortEntries scenario_tree (entries ?dh) (sort_type ?o))))
           = [''root/alpha.txt'', ''root/beta.txt'']"
    by (simp add: initial_def entry_of_def sortEntries_def default_options_def listing_def
        isDirectory_def regular_file_def directory_entry_def scenario_tree_def table_platform_def)
  have v: "visited initial = {}" by (simp add: initial_def)
  from maxDepth_zero_yields_root_children [where options = ?o and pf = scenario_tree
      and dirPath = "''root''" and dh = ?dh and st = initial and fuel = 0 and mt = match_js] m h
  obtain st' where "walk (Suc (Suc 0)) scenario_tree match_js ?o ''root'' 0 initial = (Returned, st')"
    "visited st' = visited initial"
    "yielded st' = yielded initial @ map (entry_of scenario_tree ''root'' 0)
               (filter (\<lambda>d. \<not> isDirectory d) (sortEntries scenario_tree (entries ?dh) (sort_type ?o)))"
    by blast
  then show ?thesis using e v m by auto
qed

text \<open>
  C10. Every entry a traversal of \<open>rootPath\<close> yields is a dirent that some directory at
  or below the root delivered: its path is the root joined with the names \<open>ns\<close> of the
  directories on the way down, which are names that directories listed, and then its own
  name, and its depth is the number of those directories (0 directly under the root, one
  more per level). So every entry lies at least one name below the root, and the root is
  not among them: on a platform where joining the root with one or more listed names
  never gives the root's own path again, no entry has the root's path.
\<close>

theorem yielded_entries_lie_beneath_root:
  "list_all (\<lambda>e. \<exists>ns dh. path e = foldl (joinPath pf) rootPath (ns @ [name (dirent e)])
                      \<and> depth e = length ns
                      \<and> set ns \<subseteq> listed_names pf
                      \<and> opendir pf (foldl (joinPath pf) rootPath ns) = Inr dh
                      \<and> dirent e \<in> set (entries dh))
     (yielded (snd (walk fuel pf mt options rootPath 0 initial)))
   \<and> ((\<forall>ns. ns \<noteq> [] \<and> set ns \<subseteq> listed_names pf \<longrightarrow> foldl (joinPath pf) rootPath ns \<noteq> rootPath) \<longrightarrow>
        list_all (\<lambda>e. path e \<noteq> rootPath) (yielded (snd (walk fuel pf mt options rootPath 0 initial))))"
proof (intro conjI impI)
  show "list_all (\<lambda>e. \<exists>ns dh. path e = foldl (joinPath pf) rootPath (ns @ [name (dirent e)])
                      \<and> depth e = length ns
                      \<and> set ns \<subseteq> listed_names pf
                      \<and> opendir pf (foldl (joinPath pf) rootPath ns) = Inr dh
                      \<and> dirent e \<in> set (entries dh))
     (yielded (snd (walk fuel pf mt options rootPath 0 initial)))"
    using walk_initial_scope [of pf options rootPath 0 fuel mt]
    unfolding list_all_iff in_scope_def beneath_def by auto
next
  assume "\<forall>ns. ns \<noteq> [] \<and> set ns \<subseteq> listed_names pf \<longrightarrow> foldl (joinPath pf) rootPath ns \<noteq> rootPath"
  then show "list_all (\<lambda>e. path e \<noteq> rootPath) (yielded (snd (walk fuel pf mt options rootPath 0 initial)))"
    using walk_initial_scope [of pf options rootPath 0 fuel mt] beneath_not_root [of pf rootPath 0]
    unfolding list_all_iff in_scope_def by blast
qed

lemma dot_names: "listed_names dot_tree \<subseteq> {''a.txt'', ''sub'', ''b.txt''}"
  by (auto simp: listed_names_def dot_tree_def table_platform_def listing_def
      regular_file_def directory_entry_def split: if_splits)

lemma normalizing_join_long: "2 \<le> length a \<Longrightarrow> 2 \<le> length (foldl normalizing_join a ns)"
  by (induction ns arbitrary: a) (auto simp: normalizing_join_def)

lemma dot_root_not_rejoined:
  "\<forall>ns. ns \<noteq> [] \<and> set ns \<subseteq> listed_names dot_tree \<longrightarrow> foldl (joinPath dot_tree) ''.'' ns \<noteq> ''.''"
proof (intro allI impI)
  fix ns
  assume a: "ns \<noteq> [] \<and> set ns \<subseteq> listed_names dot_tree"
  then obtain n ms where ns: "ns = n # ms" by (cases ns) auto
  then have "n \<in> {''a.txt'', ''sub'', ''b.txt''}" using a dot_names by auto
  then have "2 \<le> length n" by auto
  then have "2 \<le> length (foldl normalizing_join n ms)" by (rule normalizing_join_long)
  moreover have "foldl (joinPath dot_tree) ''.'' ns = foldl normalizing_join n ms"
    by (simp add: ns dot_tree_def normalizing_join_def)
  ultimately show "foldl (joinPath dot_tree) ''.'' ns \<noteq> ''.''" by auto
qed

lemma dot_walk_all:
  "map (\<lambda>e. (path e, depth e))
     (yielded (snd (walk 3 dot_tree match_js (default_options \<lparr> yieldDirectories := True \<rparr>) ''.'' 0 initial)))
   = [(''a.txt'', 0), (''sub'', 0), (''sub/b.txt'', 1)]"
  by (simp add: example_defs dot_tree_def normalizing_join_def walk_defs Let_def numeral_3_eq_3)

text \<open>
  The tree under \<open>.\<close> with \<open>yieldDirectories\<close>: its three entries with their paths and
  depths; none of them is the root, though joining \<open>.\<close> with \<open>a.txt\<close> gives a path no
  longer than \<open>a.txt\<close>.
\<close>

theorem yielded_entries_lie_beneath_root_witness:
  "map (\<lambda>e. (path e, depth e))
     (yielded (snd (walk 3 dot_tree match_js (default_options \<lparr> yieldDirectories := True \<rparr>) ''.'' 0 initial)))
     = [(''a.txt'', 0), (''sub'', 0), (''sub/b.txt'', 1)]
   \<and> list_all (\<lambda>e. path e \<noteq> ''.'')
        (yielded (snd (walk 3 dot_tree match_js (default_options \<lparr> yieldDirectories := True \<rparr>)
          ''.'' 0 initial)))"
proof -
  have "list_all (\<lambda>e. path e \<noteq> ''.'')
        (yielded (snd (walk 3 dot_tree match_js (default_options \<lparr> yieldDirectories := True \<rparr>)
          ''.'' 0 initial)))"
    by (rule mp [OF yielded_entries_lie_beneath_root [THEN conjunct2] dot_root_not_rejoined])
  then show ?thesis using dot_walk_all by (intro conjI)
qed

section \<open>Cancellation\<close>

lemma capped_refl [simp]: "capped n st st"
  by (simp add: capped_def)

lemma capped_poll [simp]: "capped n st (poll st)" "capped n (poll st) st' = capped n st st'"
  by (simp_all add: capped_def poll_def)

lemma capped_trans: "capped n a b \<Longrightarrow> capped n b c \<Longrightarrow> capped n a c"
  by (auto simp: capped_def)

lemma not_aborted_count:
  "signal options = Some (AbortedAfter n k) \<Longrightarrow> \<not> aborted options st \<Longrightarrow> length (yielded st) \<le> n"
  by (auto simp: aborted_def)

lemma emit_capped:
  "length (yielded st) \<le> n \<Longrightarrow> emit pf options p d j st = (c, st') \<Longrightarrow>
   length (yielded st') \<le> Suc n"
  by (auto simp: emit_def Let_def split: if_splits sum.splits option.splits)

lemma visit_capped:
  assumes rec: "\<forall>p j s c s'. recurse p j s = (c, s') \<longrightarrow> capped n s s'"
    and le: "length (yielded st) \<le> n"
    and v: "visit recurse pf mt options dirPath j d st = (c, st')"
  shows "length (yielded st') \<le> Suc n"
proof -
  let ?p = "joinPath pf dirPath (name d)"
  let ?now = "options_now options st"
  let ?s = "note_calls mt (name d) ?now st"
  have le': "length (yielded ?s) \<le> n" using le by simp
  show ?thesis
  proof (cases "applyFilters mt (name d) ?now")
    case (Inl e)
    then show ?thesis using v le by (auto simp: visit_def Let_def)
  next
    case (Inr inc)
    show ?thesis
    proof (cases "treat_as_directory pf options ?p d")
      case False
      then show ?thesis using v Inr le emit_capped [OF le']
        by (auto simp: visit_def Let_def split: if_splits)
    next
      case True
      obtain c1 s1 where e1: "(if yieldDirectories options \<and> inc then emit pf options ?p d j ?s
                                else (Returned, ?s)) = (c1, s1)" by force
      then have l1: "length (yielded s1) \<le> Suc n"
        using emit_capped [OF le'] le by (auto split: if_splits)
      show ?thesis
      proof (cases c1)
        case Returned
        then have "recurse ?p (Suc j) s1 = (c, st')"
          using v Inr True e1 by (simp add: visit_def Let_def)
        then have "capped n s1 st'" using rec by blast
        then show ?thesis using l1 by (simp add: capped_def)
      next
        case (Threw x)
        then show ?thesis using v Inr True e1 l1 by (simp add: visit_def Let_def)
      next
        case OutOfFuel
        then show ?thesis using v Inr True e1 l1 by (simp add: visit_def Let_def)
      qed
    qed
  qed
qed

lemma loop_capped:
  assumes sg: "signal options = Some (AbortedAfter n k)"
    and rec: "\<forall>p j s c s'. recurse p j s = (c, s') \<longrightarrow> capped n s s'"
  shows "loop recurse pf mt options dirPath j ds flt st = (c, st') \<Longrightarrow> capped n st st'"
proof (induction ds arbitrary: st)
  case Nil
  then show ?case by (auto split: option.splits)
next
  case (Cons d ds)
  show ?case
  proof (cases "aborted options st")
    case True
    then show ?thesis using Cons.prems by auto
  next
    case False
    then have le: "length (yielded (poll st)) \<le> n"
      using not_aborted_count [OF sg] by (simp add: poll_def)
    obtain c1 s1 where v: "visit recurse pf mt options dirPath j d (poll st) = (c1, s1)" by force
    have l1: "length (yielded s1) \<le> Suc n"
      using visit_capped [OF rec le v] .
    then have g1: "capped n st s1" by (simp add: capped_def)
    show ?thesis
    proof (cases c1)
      case Returned
      then have "loop recurse pf mt options dirPath j ds flt s1 = (c, st')"
        using Cons.prems False v by simp
      then have "capped n s1 st'" by (rule Cons.IH)
      then show ?thesis using g1 capped_trans by blast
    next
      case (Threw x)
      then show ?thesis using Cons.prems False v g1 by simp
    next
      case OutOfFuel
      then show ?thesis using Cons.prems False v g1 by simp
    qed
  qed
qed

lemma frame_capped:
  assumes sg: "signal options = Some (AbortedAfter n k)"
    and rec: "\<forall>p j s c s'. recurse p j s = (c, s') \<longrightarrow> capped n s s'"
    and f: "frame recurse pf mt options dirPath j dh st = (c, st')"
  shows "capped n st st'"
proof (cases "sort_requested (sort_type options)")
  case False
  then show ?thesis using f loop_capped [OF sg rec] by (simp add: frame_def)
next
  case True
  obtain r s1 where c: "collect options (entries dh) (fault dh) [] st = (r, s1)" by force
  then have y: "yielded s1 = yielded st" by (simp add: collect_yielded)
  show ?thesis
  proof (cases r)
    case (Inl e)
    then show ?thesis using True f c y by (simp add: frame_def capped_def)
  next
    case (Inr es)
    have "loop recurse pf mt options dirPath j (sortEntries pf es (sort_type options)) None s1 = (c, st')"
      using True f c Inr by (simp add: frame_def)
    then have "capped n s1 st'" by (rule loop_capped [OF sg rec])
    then show ?thesis using y by (simp add: capped_def)
  qed
qed

lemma walk_capped:
  assumes sg: "signal options = Some (AbortedAfter n k)"
  shows "walk fuel pf mt options p j st = (c, st') \<Longrightarrow> capped n st st'"
proof (induction fuel arbitrary: p j st c st')
  case 0
  then show ?case by auto
next
  case (Suc fuel)
  have rec: "\<forall>p j s c s'. walk fuel pf mt options p j s = (c, s') \<longrightarrow> capped n s s'"
    using Suc.IH by blast
  show ?case
  proof (cases "aborted options st \<or> depth_exceeds j (maxDepth options)")
    case True
    then show ?thesis using Suc.prems by (auto split: if_splits)
  next
    case False
    obtain g st1 where g: "cycle_guard pf options p (poll st) = (g, st1)" by force
    then have y: "yielded st1 = yielded st"
      by (auto simp: cycle_guard_def poll_def split: if_splits sum.splits)
    then have g0: "capped n st st1" by (simp add: capped_def)
    show ?thesis
    proof (cases g)
      case (Some x)
      then show ?thesis using Suc.prems False g g0 by auto
    next
      case None
      show ?thesis
      proof (cases "opendir pf p")
        case (Inl err)
        then show ?thesis using Suc.prems False g None g0 by (auto split: if_splits)
      next
        case (Inr dh)
        obtain c2 st2 where f: "frame (walk fuel pf mt options) pf mt options p j dh st1 = (c2, st2)"
          by force
        have "capped n st1 st2"
          using frame_capped [OF sg rec f] .
        then have "capped n st st2"
          using g0 capped_trans by blast
        moreover have "st' = st2"
          using Suc.prems False g None Inr f by (auto split: completion.splits if_splits)
        ultimately show ?thesis by simp
      qed
    qed
  qed
qed

text \<open>
  C7. If the cancellation request lands when \<open>n\<close> entries have been yielded (after any
  number \<open>k\<close> of reads of the flag since the last of them), the traversal yields fewer
  than \<open>n + 2\<close> entries in all; this holds of every prefix of the run as well, whatever
  the fuel.
\<close>

theorem cancelled_traversal_yields_at_most_one_more:
  "signal options = Some (AbortedAfter n k) \<Longrightarrow>
   length (yielded (snd (walk fuel pf mt options rootPath 0 initial))) < n + 2"
proof -
  assume sg: "signal options = Some (AbortedAfter n k)"
  obtain c st' where w: "walk fuel pf mt options rootPath 0 initial = (c, st')" by force
  from walk_capped [OF sg w] show ?thesis using w by (simp add: capped_def initial_def)
qed

text \<open>
  A request that lands after the second read of the flag, before anything is yielded: the
  entry under way is still yielded, the one extra entry, and nothing after it.
\<close>

theorem cancelled_traversal_yields_at_most_one_more_witness:
  "signal (default_options \<lparr> signal := Some (AbortedAfter 0 2) \<rparr>) = Some (AbortedAfter 0 2)
   \<and> length (yielded (snd (walk 3 scenario_tree match_js
        (default_options \<lparr> signal := Some (AbortedAfter 0 2) \<rparr>) ''root'' 0 initial))) < 0 + 2
   \<and> map path (yielded (snd (walk 3 scenario_tree match_js
        (default_options \<lparr> signal := Some (AbortedAfter 0 2) \<rparr>) ''root'' 0 initial)))
      = [''root/alpha.txt'']"
proof -
  have a: "signal (default_options \<lparr> signal := Some (AbortedAfter 0 2) \<rparr>) = Some (AbortedAfter 0 2)"
    by simp
  have b: "map path (yielded (snd (walk 3 scenario_tree match_js
        (default_options \<lparr> signal := Some (AbortedAfter 0 2) \<rparr>) ''root'' 0 initial)))
      = [''root/alpha.txt'']"
    by (simp add: example_defs walk_defs numeral_3_eq_3)
  show ?thesis
    using a b cancelled_traversal_yields_at_most_one_more [OF a, where fuel = 3
        and pf = scenario_tree and mt = match_js and rootPath = "''root''"]
    by blast
qed

section \<open>Failures under suppression\<close>

lemma poll_fields [simp]:
  "visited (poll st) = visited st" "yielded (poll st) = yielded st"
  "include_seen (poll st) = include_seen st" "exclude_seen (poll st) = exclude_seen st"
  by (simp_all add: poll_def)









section \<open>Faults without suppression\<close>









end
